theory Spec2Isabelle
  imports Main
begin

section \<open>RepoLib utilities (repolib/util.py)\<close>

text \<open>
  A shallow embedding of the reconciliation and validation functions of
  \<^verbatim>\<open>repolib/util.py\<close>: \<^verbatim>\<open>compare_sources\<close>, \<^verbatim>\<open>find_differences_sources\<close>,
  \<^verbatim>\<open>combine_sources\<close>, \<^verbatim>\<open>fetch_key\<close>, \<^verbatim>\<open>url_validator\<close>, \<^verbatim>\<open>validate_debline\<close>
  and \<^verbatim>\<open>strip_hashes\<close>.

  Python strings are modelled as \<^typ>\<open>string\<close>: lists of characters with code points
  below 256. A source entry is used by these functions as a Python dictionary from field
  names to string values; it is modelled as an association list in insertion order, whose
  keys are pairwise distinct (the invariant of a dictionary).
\<close>

subsection \<open>Python string primitives\<close>

text \<open>
  \<^verbatim>\<open>str.isspace\<close> on one character, for the code points below 256: the characters
  tab, line feed, vertical tab, form feed, carriage return, the separators 0x1C to 0x1F,
  space, next line (0x85) and no-break space (0xA0).
\<close>

definition isspace :: "char \<Rightarrow> bool" where
  "isspace c = (c \<in> set [CHR 0x09, CHR 0x0A, CHR 0x0B, CHR 0x0C, CHR 0x0D,
                          CHR 0x1C, CHR 0x1D, CHR 0x1E, CHR 0x1F, CHR 0x20,
                          CHR 0x85, CHR 0xA0])"

text \<open>\<^verbatim>\<open>s.lstrip(chars)\<close>, \<^verbatim>\<open>s.rstrip(chars)\<close> and \<^verbatim>\<open>s.strip(chars)\<close>, for a
  set of characters given as a predicate.\<close>

definition lstrip_with :: "(char \<Rightarrow> bool) \<Rightarrow> string \<Rightarrow> string" where
  "lstrip_with p s = dropWhile p s"

definition rstrip_with :: "(char \<Rightarrow> bool) \<Rightarrow> string \<Rightarrow> string" where
  "rstrip_with p s = rev (dropWhile p (rev s))"

definition strip_with :: "(char \<Rightarrow> bool) \<Rightarrow> string \<Rightarrow> string" where
  "strip_with p s = rstrip_with p (lstrip_with p s)"

text \<open>\<^verbatim>\<open>s.strip()\<close>: strips whitespace.\<close>

definition strip :: "string \<Rightarrow> string" where
  "strip s = strip_with isspace s"


text \<open>\<^verbatim>\<open>s.startswith(p)\<close> and \<^verbatim>\<open>s.endswith(p)\<close>.\<close>

definition startswith :: "string \<Rightarrow> string \<Rightarrow> bool" where
  "startswith p s = (take (length p) s = p)"

definition endswith :: "string \<Rightarrow> string \<Rightarrow> bool" where
  "endswith p s = (take (length p) (rev s) = rev p)"

text \<open>
  \<^verbatim>\<open>s.split()\<close>: the maximal runs of non-whitespace characters, in order. The
  second argument of \<open>split_from\<close> is the run read so far.
\<close>

fun split_from :: "string \<Rightarrow> string \<Rightarrow> string list" where
  "split_from [] cur = (if cur = [] then [] else [cur])"
| "split_from (c # cs) cur =
     (if isspace c then (if cur = [] then split_from cs [] else cur # split_from cs [])
      else split_from cs (cur @ [c]))"

definition split :: "string \<Rightarrow> string list" where
  "split s = split_from s []"

text \<open>\<^verbatim>\<open>' '.join(words)\<close>.\<close>

fun join_space :: "string list \<Rightarrow> string" where
  "join_space [] = []"
| "join_space [w] = w"
| "join_space (w # ws) = w @ '' '' @ join_space ws"

subsection \<open>Dictionaries\<close>

type_synonym 'v pydict = "(string \<times> 'v) list"

type_synonym source = "string pydict"

text \<open>\<^verbatim>\<open>d[key] = v\<close>: an existing key keeps its position, a new key goes last.\<close>

fun setitem :: "'v pydict \<Rightarrow> string \<Rightarrow> 'v \<Rightarrow> 'v pydict" where
  "setitem [] key v = [(key, v)]"
| "setitem ((k, w) # d) key v =
     (if k = key then (k, v) # d else (k, w) # setitem d key v)"

text \<open>
  \<^verbatim>\<open>d[key] = f(d[key])\<close> for a key of \<open>d\<close>, as in \<^verbatim>\<open>d[key] += x\<close>. Every use
  below is on a key that the dictionary has (Python raises KeyError otherwise, which
  no call of this file reaches).
\<close>

fun moditem :: "'v pydict \<Rightarrow> string \<Rightarrow> ('v \<Rightarrow> 'v) \<Rightarrow> 'v pydict" where
  "moditem [] key f = []"
| "moditem ((k, w) # d) key f =
     (if k = key then (k, f w) # d else (k, w) # moditem d key f)"

subsection \<open>compare\_sources\<close>

text \<open>
  The two loops of \<^verbatim>\<open>compare_sources\<close>. Each iterates over the keys of one
  dictionary; the value \<^verbatim>\<open>source1[key]\<close> of the dictionary that is iterated is the
  value stored with the key, the value of the other one is looked up after the test
  \<^verbatim>\<open>key in ...\<close>. \<open>False\<close> is the early \<^verbatim>\<open>return False\<close>; \<open>True\<close> says that
  the loop ran to its end.
\<close>

fun compare_loop1 :: "source \<Rightarrow> source \<Rightarrow> string list \<Rightarrow> bool" where
  "compare_loop1 [] source2 excl_keys = True"
| "compare_loop1 ((key, v1) # rest) source2 excl_keys =
     (if key \<in> set excl_keys then compare_loop1 rest source2 excl_keys
      else (case map_of source2 key of
              Some v2 \<Rightarrow> if v1 \<noteq> v2 then False
                         else compare_loop1 rest source2 excl_keys
            | None \<Rightarrow> False))"

fun compare_loop2 :: "source \<Rightarrow> source \<Rightarrow> string list \<Rightarrow> bool" where
  "compare_loop2 source1 [] excl_keys = True"
| "compare_loop2 source1 ((key, v2) # rest) excl_keys =
     (if key \<in> set excl_keys then compare_loop2 source1 rest excl_keys
      else (case map_of source1 key of
              Some v1 \<Rightarrow> if v1 \<noteq> v2 then False
                         else compare_loop2 source1 rest excl_keys
            | None \<Rightarrow> False))"

definition compare_sources :: "source \<Rightarrow> source \<Rightarrow> string list \<Rightarrow> bool" where
  "compare_sources source1 source2 excl_keys =
     (if \<not> compare_loop1 source1 source2 excl_keys then False
      else if \<not> compare_loop2 source1 source2 excl_keys then False
      else True)"

subsection \<open>find\_differences\_sources\<close>

type_synonym differences = "(string \<times> string) pydict"

text \<open>
  The first loop: for a key of both dictionaries with different values the pair of both
  values is stored, and the statement after the inner \<^verbatim>\<open>if\<close> then stores the pair
  with an empty second component under the same key.
\<close>

fun find_loop1 :: "source \<Rightarrow> source \<Rightarrow> string list \<Rightarrow> differences \<Rightarrow> differences" where
  "find_loop1 [] source2 excl_keys differing_keys = differing_keys"
| "find_loop1 ((key, v1) # rest) source2 excl_keys differing_keys =
     (if key \<in> set excl_keys then find_loop1 rest source2 excl_keys differing_keys
      else (case map_of source2 key of
              Some v2 \<Rightarrow>
                if v1 = v2 then find_loop1 rest source2 excl_keys differing_keys
                else find_loop1 rest source2 excl_keys
                       (setitem (setitem differing_keys key (v1, v2)) key (v1, []))
            | None \<Rightarrow>
                find_loop1 rest source2 excl_keys (setitem differing_keys key (v1, []))))"

fun find_loop2 :: "source \<Rightarrow> source \<Rightarrow> string list \<Rightarrow> differences \<Rightarrow> differences" where
  "find_loop2 source1 [] excl_keys differing_keys = differing_keys"
| "find_loop2 source1 ((key, v2) # rest) excl_keys differing_keys =
     (if key \<in> set excl_keys then find_loop2 source1 rest excl_keys differing_keys
      else (case map_of source1 key of
              Some v1 \<Rightarrow>
                if v1 = v2 then find_loop2 source1 rest excl_keys differing_keys
                else find_loop2 source1 rest excl_keys
                       (setitem differing_keys key ([], v2))
            | None \<Rightarrow>
                find_loop2 source1 rest excl_keys (setitem differing_keys key ([], v2))))"

definition find_differences_sources :: "source \<Rightarrow> source \<Rightarrow> string list \<Rightarrow> differences" where
  "find_differences_sources source1 source2 excl_keys =
     find_loop2 source1 source2 excl_keys (find_loop1 source1 source2 excl_keys [])"

subsection \<open>combine\_sources\<close>

text \<open>The keys that the two merging loops skip (the tuple written in both loops).\<close>

definition unmerged_keys :: "string list" where
  "unmerged_keys = [''X-Repolib-Name'', ''X-Repolib-ID'', ''Enabled'', ''Types'']"

text \<open>
  The first loop runs over the keys of \<open>source1\<close> and appends to \<open>source1\<close>; the
  second loop runs over the items of \<open>source2\<close> and appends to \<open>source1\<close> again.
  The statement \<^verbatim>\<open>source1[key] += f' {source2[key]}'\<close> is
  \<open>moditem source1 key (\<lambda>v. v @ '' '' @ v2)\<close>.
\<close>

fun combine_loop1 :: "string list \<Rightarrow> source \<Rightarrow> source \<Rightarrow> source" where
  "combine_loop1 [] source1 source2 = source1"
| "combine_loop1 (key # keys) source1 source2 =
     (if key \<in> set unmerged_keys then combine_loop1 keys source1 source2
      else (case map_of source2 key of
              Some v2 \<Rightarrow>
                combine_loop1 keys (moditem source1 key (\<lambda>v. v @ '' '' @ v2)) source2
            | None \<Rightarrow> combine_loop1 keys source1 source2))"

fun combine_loop2 :: "source \<Rightarrow> source \<Rightarrow> source" where
  "combine_loop2 [] source1 = source1"
| "combine_loop2 ((key, v2) # rest) source1 =
     (if key \<in> set unmerged_keys then combine_loop2 rest source1
      else if map_of source1 key \<noteq> None
        then combine_loop2 rest (moditem source1 key (\<lambda>v. v @ '' '' @ v2))
      else combine_loop2 rest source1)"

text \<open>The inner loop of the deduplication: \<^verbatim>\<open>if val not in newvals: newvals.append(val)\<close>.\<close>

fun dedup_loop :: "string list \<Rightarrow> string list \<Rightarrow> string list" where
  "dedup_loop [] newvals = newvals"
| "dedup_loop (val # vals) newvals =
     (if val \<notin> set newvals then dedup_loop vals (newvals @ [val])
      else dedup_loop vals newvals)"

text \<open>
  The deduplication as the specification words it, for comparison with \<open>dedup_loop\<close>:
  keep the first occurrence of each token, in order.
\<close>

fun dedup_first :: "'a list \<Rightarrow> 'a list" where
  "dedup_first [] = []"
| "dedup_first (x # xs) = x # dedup_first (filter (\<lambda>y. y \<noteq> x) xs)"

definition dedup_value :: "string \<Rightarrow> string" where
  "dedup_value v = join_space (dedup_loop (split (strip v)) [])"

fun dedup_all :: "string list \<Rightarrow> source \<Rightarrow> source" where
  "dedup_all [] source = source"
| "dedup_all (key # keys) source = dedup_all keys (moditem source key dedup_value)"

text \<open>
  \<^verbatim>\<open>combine_sources\<close> returns nothing and changes both dictionaries in place (two
  different objects); the model returns the final \<open>source1\<close> and \<open>source2\<close>.
\<close>

definition combine_sources :: "source \<Rightarrow> source \<Rightarrow> source \<times> source" where
  "combine_sources source1 source2 =
     (let s1 = combine_loop1 (map fst source1) source1 source2;
          s1 = combine_loop2 source2 s1;
          s1 = dedup_all (map fst s1) s1;
          s2 = dedup_all (map fst source2) source2
      in (s1, s2))"

subsection \<open>fetch\_key\<close>

text \<open>
  The exceptions that matter to \<^verbatim>\<open>fetch_key\<close>: \<open>URLError\<close> is
  \<^verbatim>\<open>urllib.error.URLError\<close> (with its subclasses), \<open>AttributeError\<close> is what
  Python raises on \<^verbatim>\<open>None.read()\<close>, \<open>OtherError\<close> stands for every other
  exception of the library call.
\<close>

datatype py_exception = URLError | AttributeError | OtherError

text \<open>
  The network is a parameter: \<open>urlopen url\<close> is the outcome of
  \<^verbatim>\<open>request.urlopen(url)\<close>, either an exception or a response, given by the bytes
  that its \<^verbatim>\<open>read()\<close> returns. The variable \<^verbatim>\<open>req\<close> holds the response or
  \<^verbatim>\<open>None\<close>.
\<close>

definition fetch_key ::
  "(string \<Rightarrow> py_exception + string) \<Rightarrow> string \<Rightarrow> string \<Rightarrow> py_exception + string" where
  "fetch_key urlopen fingerprint query_url =
     (let full_url = query_url @ fingerprint
      in case (case urlopen full_url of
                 Inr response \<Rightarrow> Inr (Some response)
               | Inl URLError \<Rightarrow> Inr None
               | Inl e \<Rightarrow> Inl e) of
           Inl e \<Rightarrow> Inl e
         | Inr None \<Rightarrow> Inl AttributeError
         | Inr (Some response) \<Rightarrow> Inr response)"

subsection \<open>url\_validator\<close>

text \<open>The result of \<^verbatim>\<open>urllib.parse.urlparse\<close>.\<close>

record parse_result =
  scheme :: string
  netloc :: string
  path :: string
  params :: string
  query :: string
  fragment :: string

text \<open>
  \<^verbatim>\<open>url_validator\<close> calls the library function \<^verbatim>\<open>urlparse\<close> inside
  \<^verbatim>\<open>try\<close> with a bare \<^verbatim>\<open>except\<close>. The parser is a parameter \<open>parse\<close>:
  \<open>None\<close> says that it raised. \<^verbatim>\<open>all([x, y])\<close> is true when both strings are
  non-empty.
\<close>

definition url_validator :: "(string \<Rightarrow> parse_result option) \<Rightarrow> string \<Rightarrow> bool" where
  "url_validator parse url =
     (case parse url of
        None \<Rightarrow> False
      | Some result \<Rightarrow>
          if scheme result = [] then False
          else if scheme result = ''x-repolib-name'' then False
          else if netloc result \<noteq> [] then (scheme result \<noteq> [] \<and> netloc result \<noteq> [])
          else if path result \<noteq> [] then (scheme result \<noteq> [] \<and> path result \<noteq> [])
          else False)"

subsection \<open>The parser of the Python library\<close>

text \<open>
  A model of \<^verbatim>\<open>urllib.parse.urlparse\<close> (CPython 3.12, \<^verbatim>\<open>Lib/urllib/parse.py\<close>),
  for a string argument and the default arguments \<^verbatim>\<open>scheme=''\<close> and
  \<^verbatim>\<open>allow_fragments=True\<close>. Two checks of the library that need tables outside of this
  development are parameters: \<open>bracketed_ok netloc\<close> says that
  \<^verbatim>\<open>_check_bracketed_netloc(netloc)\<close> does not raise (asked only for a netloc with
  both brackets), and \<open>nfkc_ok netloc\<close> says that \<^verbatim>\<open>_checknetloc(netloc)\<close> does not
  raise (asked only for a non-empty netloc with a character outside ASCII).
\<close>

definition scheme_chars :: string where
  "scheme_chars = ''abcdefghijklmnopqrstuvwxyz'' @ ''ABCDEFGHIJKLMNOPQRSTUVWXYZ'' @
                  ''0123456789'' @ ''+-.''"

definition uses_params :: "string list" where
  "uses_params = [[], ''ftp'', ''hdl'', ''prospero'', ''http'', ''imap'',
                  ''https'', ''shttp'', ''rtsp'', ''rtsps'', ''rtspu'', ''sip'',
                  ''sips'', ''mms'', ''sftp'', ''tel'']"

text \<open>The characters 0x00 to 0x20 (\<^verbatim>\<open>_WHATWG_C0_CONTROL_OR_SPACE\<close>).\<close>

definition c0_control_or_space :: "char \<Rightarrow> bool" where
  "c0_control_or_space c = (of_char c \<le> (32::nat))"

text \<open>Tab, carriage return and line feed (\<^verbatim>\<open>_UNSAFE_URL_BYTES_TO_REMOVE\<close>).\<close>

definition unsafe_url_byte :: "char \<Rightarrow> bool" where
  "unsafe_url_byte c = (c \<in> set [CHR 0x09, CHR 0x0D, CHR 0x0A])"

definition isascii :: "char \<Rightarrow> bool" where
  "isascii c = (of_char c < (128::nat))"

text \<open>\<^verbatim>\<open>c.isascii() and c.isalpha()\<close>.\<close>

definition ascii_alpha :: "char \<Rightarrow> bool" where
  "ascii_alpha c = (c \<in> set (''abcdefghijklmnopqrstuvwxyz'' @ ''ABCDEFGHIJKLMNOPQRSTUVWXYZ''))"

text \<open>\<^verbatim>\<open>str.lower\<close> on one character of \<open>scheme_chars\<close>.\<close>

definition lower_char :: "char \<Rightarrow> char" where
  "lower_char c =
     (case map_of (zip ''ABCDEFGHIJKLMNOPQRSTUVWXYZ'' ''abcdefghijklmnopqrstuvwxyz'') c of
        Some l \<Rightarrow> l
      | None \<Rightarrow> c)"

text \<open>
  The scheme: with \<^verbatim>\<open>i = url.find(':')\<close>, the text before the first colon when
  \<open>i > 0\<close>, its first character is an ASCII letter and all its characters are in
  \<open>scheme_chars\<close>. The result is the scheme in lower case and the rest of the URL.
\<close>

definition split_scheme :: "string \<Rightarrow> string \<times> string" where
  "split_scheme url =
     (let pre = takeWhile (\<lambda>c. c \<noteq> CHR '':'') url
      in if CHR '':'' \<in> set url \<and> (case pre of [] \<Rightarrow> False | c # _ \<Rightarrow> ascii_alpha c) \<and>
            list_all (\<lambda>c. c \<in> set scheme_chars) pre
         then (map lower_char pre, drop (length pre + 1) url)
         else ([], url))"

text \<open>\<^verbatim>\<open>_splitnetloc(url, 2)\<close>: the netloc ends at the first of \<^verbatim>\<open>/?#\<close>.\<close>

definition splitnetloc :: "string \<Rightarrow> string \<times> string" where
  "splitnetloc url =
     (takeWhile (\<lambda>c. c \<notin> set ''/?#'') (drop 2 url),
      dropWhile (\<lambda>c. c \<notin> set ''/?#'') (drop 2 url))"

text \<open>\<^verbatim>\<open>s.split(c, 1)\<close> for a character \<open>c\<close> of \<open>s\<close>.\<close>

definition split_once :: "char \<Rightarrow> string \<Rightarrow> string \<times> string" where
  "split_once c s = (takeWhile (\<lambda>x. x \<noteq> c) s, drop 1 (dropWhile (\<lambda>x. x \<noteq> c) s))"

text \<open>\<^verbatim>\<open>urlsplit\<close>: scheme, netloc, path, query and fragment, or \<open>None\<close> for ValueError.\<close>

definition urlsplit ::
  "(string \<Rightarrow> bool) \<Rightarrow> (string \<Rightarrow> bool) \<Rightarrow> string \<Rightarrow>
     (string \<times> string \<times> string \<times> string \<times> string) option" where
  "urlsplit bracketed_ok nfkc_ok url0 =
     (let url = filter (\<lambda>c. \<not> unsafe_url_byte c) (dropWhile c0_control_or_space url0);
          (sch, url) = split_scheme url;
          (loc, url) = (if take 2 url = ''//'' then splitnetloc url else ([], url))
      in if (CHR ''['' \<in> set loc \<and> CHR '']'' \<notin> set loc) \<or>
            (CHR '']'' \<in> set loc \<and> CHR ''['' \<notin> set loc) then None
         else if CHR ''['' \<in> set loc \<and> CHR '']'' \<in> set loc \<and> \<not> bracketed_ok loc
           then None
         else
           (let (url, frag) =
                  (if CHR ''#'' \<in> set url then split_once CHR ''#'' url else (url, []));
                (url, qry) =
                  (if CHR ''?'' \<in> set url then split_once CHR ''?'' url else (url, []))
            in if loc \<noteq> [] \<and> \<not> list_all isascii loc \<and> \<not> nfkc_ok loc then None
               else Some (sch, loc, url, qry, frag)))"

text \<open>\<^verbatim>\<open>_splitparams\<close>, called on a path that contains a semicolon.\<close>

definition splitparams :: "string \<Rightarrow> string \<times> string" where
  "splitparams url =
     (if CHR ''/'' \<in> set url
      then (let seg = rev (takeWhile (\<lambda>c. c \<noteq> CHR ''/'') (rev url));
                front = take (length url - length seg) url
            in if CHR '';'' \<notin> set seg then (url, [])
               else (front @ takeWhile (\<lambda>c. c \<noteq> CHR '';'') seg,
                     drop 1 (dropWhile (\<lambda>c. c \<noteq> CHR '';'') seg)))
      else split_once CHR '';'' url)"

definition urlparse ::
  "(string \<Rightarrow> bool) \<Rightarrow> (string \<Rightarrow> bool) \<Rightarrow> string \<Rightarrow> parse_result option" where
  "urlparse bracketed_ok nfkc_ok url0 =
     (case urlsplit bracketed_ok nfkc_ok url0 of
        None \<Rightarrow> None
      | Some (sch, loc, url, qry, frag) \<Rightarrow>
          (let (url, prm) =
                 (if sch \<in> set uses_params \<and> CHR '';'' \<in> set url then splitparams url
                  else (url, []))
           in Some \<lparr>scheme = sch, netloc = loc, path = url, params = prm,
                     query = qry, fragment = frag\<rparr>))"

subsection \<open>validate\_debline\<close>

text \<open>
  The loop of the \<^verbatim>\<open>deb\<close> branch returns \<^verbatim>\<open>True\<close> at the first word that is a
  URL. When no word is one, the function ends without a \<^verbatim>\<open>return\<close>: the result is
  Python's \<^verbatim>\<open>None\<close>, here \<open>None\<close>; \<open>Some b\<close> is the returned boolean \<open>b\<close>.
\<close>

fun deb_words :: "(string \<Rightarrow> parse_result option) \<Rightarrow> string list \<Rightarrow> bool option" where
  "deb_words parse [] = None"
| "deb_words parse (word # words) =
     (if url_validator parse word then Some True else deb_words parse words)"

text \<open>
  The first statement: a line that starts with \<^verbatim>\<open>#\<close> loses all its \<^verbatim>\<open>#\<close>
  characters (\<^verbatim>\<open>valid.replace('#', '')\<close>) and then its surrounding whitespace.
\<close>

definition strip_comment :: "string \<Rightarrow> string" where
  "strip_comment valid =
     (if startswith ''#'' valid then strip (filter (\<lambda>c. c \<noteq> CHR ''#'') valid) else valid)"

definition validate_debline :: "(string \<Rightarrow> parse_result option) \<Rightarrow> string \<Rightarrow> bool option" where
  "validate_debline parse line =
     (let valid = strip_comment line
      in if startswith ''deb'' valid then deb_words parse (split valid)
         else if startswith ''ppa:'' valid
           then (if CHR ''/'' \<in> set valid then Some True else None)
         else if endswith ''.flatpakrepo'' valid then Some False
         else if length (split valid) = 1 then Some (url_validator parse valid)
         else Some False)"

text \<open>
  For closed examples: library checks that accept every netloc. The URLs of the examples
  below have a netloc in ASCII without brackets, on which the parser does not ask them.
\<close>

definition accept_netloc :: "string \<Rightarrow> bool" where
  "accept_netloc loc = True"

subsection \<open>strip\_hashes\<close>



section \<open>Properties of the comparison\<close>

lemma setitem_not_Nil: "setitem d key v \<noteq> []"
  by (cases d) (auto split: if_splits)

lemma compare_loop1_iff:
  "compare_loop1 a b E =
     (\<forall>(k, v) \<in> set a. k \<notin> set E \<longrightarrow> map_of b k = Some v)"
  by (induction a b E rule: compare_loop1.induct) (auto split: option.splits)

lemma compare_loop2_iff:
  "compare_loop2 a b E =
     (\<forall>(k, v) \<in> set b. k \<notin> set E \<longrightarrow> map_of a k = Some v)"
  by (induction a b E rule: compare_loop2.induct) (auto split: option.splits)

lemma compare_sources_loops:
  "compare_sources a b E =
     ((\<forall>(k, v) \<in> set a. k \<notin> set E \<longrightarrow> map_of b k = Some v) \<and>
      (\<forall>(k, v) \<in> set b. k \<notin> set E \<longrightarrow> map_of a k = Some v))"
  by (simp add: compare_sources_def compare_loop1_iff compare_loop2_iff)

lemma find_loop1_Nil_iff:
  "(find_loop1 a b E acc = []) =
     (acc = [] \<and> (\<forall>(k, v) \<in> set a. k \<notin> set E \<longrightarrow> map_of b k = Some v))"
  by (induction a b E acc rule: find_loop1.induct)
     (auto simp: setitem_not_Nil split: option.splits)

lemma find_loop2_Nil_iff:
  "(find_loop2 a b E acc = []) =
     (acc = [] \<and> (\<forall>(k, v) \<in> set b. k \<notin> set E \<longrightarrow> map_of a k = Some v))"
  by (induction a b E acc rule: find_loop2.induct)
     (auto simp: setitem_not_Nil split: option.splits)

lemma find_differences_Nil_iff:
  "(find_differences_sources a b E = []) =
     ((\<forall>(k, v) \<in> set a. k \<notin> set E \<longrightarrow> map_of b k = Some v) \<and>
      (\<forall>(k, v) \<in> set b. k \<notin> set E \<longrightarrow> map_of a k = Some v))"
  by (auto simp: find_differences_sources_def find_loop1_Nil_iff find_loop2_Nil_iff)

lemma key_in_dict_iff: "(k \<in> fst ` set d) = (map_of d k \<noteq> None)"
  by (simp add: map_of_eq_None_iff)

lemma loop_cond_iff:
  assumes "distinct (map fst a)"
  shows "(\<forall>(k, v) \<in> set a. k \<notin> set E \<longrightarrow> map_of b k = Some v) =
         (\<forall>k \<in> fst ` set a. k \<notin> set E \<longrightarrow>
            (\<exists>v. map_of a k = Some v \<and> map_of b k = Some v))"
proof
  assume L: "\<forall>(k, v) \<in> set a. k \<notin> set E \<longrightarrow> map_of b k = Some v"
  show "\<forall>k \<in> fst ` set a. k \<notin> set E \<longrightarrow>
            (\<exists>v. map_of a k = Some v \<and> map_of b k = Some v)"
  proof (intro ballI impI)
    fix k assume "k \<in> fst ` set a" and nE: "k \<notin> set E"
    then obtain v where kv: "(k, v) \<in> set a" by auto
    with assms have "map_of a k = Some v" by simp
    moreover from L kv nE have "map_of b k = Some v" by blast
    ultimately show "\<exists>v. map_of a k = Some v \<and> map_of b k = Some v" by blast
  qed
next
  assume R: "\<forall>k \<in> fst ` set a. k \<notin> set E \<longrightarrow>
            (\<exists>v. map_of a k = Some v \<and> map_of b k = Some v)"
  show "\<forall>(k, v) \<in> set a. k \<notin> set E \<longrightarrow> map_of b k = Some v"
  proof (clarify)
    fix k v assume kv: "(k, v) \<in> set a" and nE: "k \<notin> set E"
    from kv have "k \<in> fst ` set a" by force
    with R nE obtain w where w: "map_of a k = Some w" "map_of b k = Some w" by blast
    from assms kv have "map_of a k = Some v" by simp
    with w show "map_of b k = Some v" by simp
  qed
qed

text \<open>
  Claim C1. For dictionaries \<open>a\<close> and \<open>b\<close> and every list \<open>E\<close> of excluded keys,
  \<open>compare_sources a b E\<close> is true exactly when every key of \<open>a\<close> or of \<open>b\<close> that
  is not excluded is a key of both, with the same value; a key that is not excluded and
  is in one dictionary only makes the result false.
\<close>

theorem compare_sources_spec:
  assumes "distinct (map fst a)" and "distinct (map fst b)"
  shows "(compare_sources a b E =
           (\<forall>k \<in> fst ` set a \<union> fst ` set b. k \<notin> set E \<longrightarrow>
              (\<exists>v. map_of a k = Some v \<and> map_of b k = Some v))) \<and>
         ((\<exists>k. k \<notin> set E \<and> (k \<in> fst ` set a) \<noteq> (k \<in> fst ` set b)) \<longrightarrow>
            \<not> compare_sources a b E)"
proof -
  let ?R = "\<forall>k \<in> fst ` set a \<union> fst ` set b. k \<notin> set E \<longrightarrow>
              (\<exists>v. map_of a k = Some v \<and> map_of b k = Some v)"
  have l2: "(\<forall>(k, v) \<in> set b. k \<notin> set E \<longrightarrow> map_of a k = Some v) =
            (\<forall>k \<in> fst ` set b. k \<notin> set E \<longrightarrow>
               (\<exists>v. map_of a k = Some v \<and> map_of b k = Some v))"
    unfolding loop_cond_iff [OF assms(2)] by blast
  have main: "compare_sources a b E = ?R"
    unfolding compare_sources_loops loop_cond_iff [OF assms(1)] l2 by blast
  have "\<not> ?R" if "k \<notin> set E" and "(k \<in> fst ` set a) \<noteq> (k \<in> fst ` set b)" for k
  proof
    assume R: ?R
    from that(2) have "k \<in> fst ` set a \<union> fst ` set b" by blast
    with R that(1) obtain v where "map_of a k = Some v" "map_of b k = Some v" by blast
    then have "k \<in> fst ` set a" "k \<in> fst ` set b" by (simp_all add: key_in_dict_iff)
    with that(2) show False by simp
  qed
  with main show ?thesis by blast
qed

theorem compare_sources_spec_witness:
  "distinct (map fst [(''Suites'', ''focal''), (''X-Repolib-Name'', ''a'')]) \<and>
   distinct (map fst [(''X-Repolib-Name'', ''b''), (''Suites'', ''focal'')]) \<and>
   compare_sources [(''Suites'', ''focal''), (''X-Repolib-Name'', ''a'')]
     [(''X-Repolib-Name'', ''b''), (''Suites'', ''focal'')] [''X-Repolib-Name'']"
proof -
  have d1: "distinct (map fst [(''Suites'', ''focal''), (''X-Repolib-Name'', ''a'')])"
    by simp
  have d2: "distinct (map fst [(''X-Repolib-Name'', ''b''), (''Suites'', ''focal'')])"
    by simp
  have r: "\<forall>k \<in> fst ` set [(''Suites'', ''focal''), (''X-Repolib-Name'', ''a'')] \<union>
          fst ` set [(''X-Repolib-Name'', ''b''), (''Suites'', ''focal'')].
      k \<notin> set [''X-Repolib-Name''] \<longrightarrow>
      (\<exists>v. map_of [(''Suites'', ''focal''), (''X-Repolib-Name'', ''a'')] k = Some v \<and>
           map_of [(''X-Repolib-Name'', ''b''), (''Suites'', ''focal'')] k = Some v)"
    by simp
  from compare_sources_spec [OF d1 d2, of "[''X-Repolib-Name'']"] r d1 d2
  show ?thesis by blast
qed

text \<open>
  Claim C2. The comparison is symmetric: \<open>compare_sources a b E\<close> and
  \<open>compare_sources b a E\<close> are equal, for all \<open>a\<close>, \<open>b\<close> and \<open>E\<close>.
\<close>

theorem compare_sources_symmetric:
  "compare_sources a b E = compare_sources b a E"
  unfolding compare_sources_loops by blast

theorem compare_sources_symmetric_witness:
  "compare_sources [(''Suites'', ''focal''), (''URIs'', ''http://a.example/'')]
     [(''Suites'', ''focal'')] [] =
   compare_sources [(''Suites'', ''focal'')]
     [(''Suites'', ''focal''), (''URIs'', ''http://a.example/'')] [] \<and>
   \<not> compare_sources [(''Suites'', ''focal'')]
     [(''Suites'', ''focal''), (''URIs'', ''http://a.example/'')] []"
proof -
  have "\<not> compare_sources [(''Suites'', ''focal'')]
     [(''Suites'', ''focal''), (''URIs'', ''http://a.example/'')] []"
    by (simp add: compare_sources_def)
  with compare_sources_symmetric
         [of "[(''Suites'', ''focal''), (''URIs'', ''http://a.example/'')]"
             "[(''Suites'', ''focal'')]" "[]"]
  show ?thesis by blast
qed

text \<open>
  Claim C3, on the input where it fails. For \<open>a\<close> with \<open>Suites: focal\<close>, \<open>b\<close> with
  \<open>Suites: jammy\<close> and no excluded key, the differing field \<open>Suites\<close> is in the result
  once, with the pair of the empty string and the value of \<open>b\<close>: the value of \<open>a\<close> is
  lost, and the pair of both values, which the first loop stores first, is overwritten.
\<close>

theorem find_differences_blank_pair:
  "find_differences_sources [(''Suites'', ''focal'')] [(''Suites'', ''jammy'')] [] =
     [(''Suites'', ([], ''jammy''))] \<and>
   map_of (find_differences_sources [(''Suites'', ''focal'')] [(''Suites'', ''jammy'')] [])
     ''Suites'' \<noteq> Some (''focal'', ''jammy'')"
  by (simp add: find_differences_sources_def)

text \<open>
  Claim C4. \<open>compare_sources a b E\<close> is true exactly when
  \<open>find_differences_sources a b E\<close> is the empty dictionary.
\<close>

theorem compare_iff_no_differences:
  "compare_sources a b E = (find_differences_sources a b E = [])"
  by (simp only: compare_sources_loops find_differences_Nil_iff)

theorem compare_iff_no_differences_witness:
  "compare_sources [(''Suites'', ''focal''), (''X-Repolib-Name'', ''a'')]
     [(''X-Repolib-Name'', ''b''), (''Suites'', ''focal'')] [''X-Repolib-Name''] \<and>
   find_differences_sources [(''Suites'', ''focal''), (''X-Repolib-Name'', ''a'')]
     [(''X-Repolib-Name'', ''b''), (''Suites'', ''focal'')] [''X-Repolib-Name''] = [] \<and>
   \<not> compare_sources [(''Suites'', ''focal'')] [(''Suites'', ''jammy'')] [] \<and>
   find_differences_sources [(''Suites'', ''focal'')] [(''Suites'', ''jammy'')] [] \<noteq> []"
proof -
  have c: "compare_sources [(''Suites'', ''focal''), (''X-Repolib-Name'', ''a'')]
     [(''X-Repolib-Name'', ''b''), (''Suites'', ''focal'')] [''X-Repolib-Name'']"
    by (simp add: compare_sources_def)
  have d: "find_differences_sources [(''Suites'', ''focal'')] [(''Suites'', ''jammy'')] [] \<noteq> []"
    by (simp add: find_differences_sources_def)
  from c d
    compare_iff_no_differences [of "[(''Suites'', ''focal''), (''X-Repolib-Name'', ''a'')]"
      "[(''X-Repolib-Name'', ''b''), (''Suites'', ''focal'')]" "[''X-Repolib-Name'']"]
    compare_iff_no_differences [of "[(''Suites'', ''focal'')]" "[(''Suites'', ''jammy'')]" "[]"]
  show ?thesis by blast
qed

section \<open>Properties of the merge\<close>

lemma split_from_space_tail:
  "list_all isspace ws \<Longrightarrow> split_from ws cur = (if cur = [] then [] else [cur])"
  by (induction ws arbitrary: cur) auto

lemma split_from_append_spaces:
  "list_all isspace ws \<Longrightarrow> split_from (s @ ws) cur = split_from s cur"
  by (induction s arbitrary: cur) (auto simp: split_from_space_tail)

lemma split_from_dropWhile:
  "split_from (dropWhile isspace s) [] = split_from s []"
  by (induction s) auto

lemma rstrip_decomp:
  "s = rstrip_with p s @ rev (takeWhile p (rev s))"
proof -
  have "rev (dropWhile p (rev s)) @ rev (takeWhile p (rev s)) =
        rev (takeWhile p (rev s) @ dropWhile p (rev s))"
    by (simp only: rev_append)
  also have "\<dots> = s" by (simp only: takeWhile_dropWhile_id rev_rev_ident)
  finally show ?thesis by (simp only: rstrip_with_def)
qed

lemma split_from_rstrip:
  "split_from (rstrip_with isspace s) cur = split_from s cur"
proof -
  have sp: "list_all isspace (rev (takeWhile isspace (rev s)))"
    by (simp add: list_all_iff) (meson set_takeWhileD)
  have "split_from s cur =
        split_from (rstrip_with isspace s @ rev (takeWhile isspace (rev s))) cur"
    using rstrip_decomp [of s isspace] by (rule arg_cong)
  also have "\<dots> = split_from (rstrip_with isspace s) cur"
    using sp by (rule split_from_append_spaces)
  finally show ?thesis by simp
qed

lemma split_strip: "split (strip s) = split s"
  by (simp add: split_def strip_def strip_with_def split_from_rstrip lstrip_with_def
        split_from_dropWhile)

lemma split_from_append_sep:
  "isspace c \<Longrightarrow> split_from (x @ c # y) cur = split_from x cur @ split_from y []"
  by (induction x arbitrary: cur) auto

lemma isspace_space: "isspace CHR '' ''"
  by (simp add: isspace_def)

lemma split_append_space: "split (x @ CHR '' '' # y) = split x @ split y"
  by (simp add: split_def split_from_append_sep isspace_space)

lemma dedup_loop_eq:
  "dedup_loop vals acc = acc @ dedup_first (filter (\<lambda>v. v \<notin> set acc) vals)"
proof (induction vals arbitrary: acc)
  case Nil
  then show ?case by simp
next
  case (Cons v vals)
  have f: "filter (\<lambda>y. y \<noteq> v) (filter (\<lambda>y. y \<notin> set acc) vals) =
           filter (\<lambda>y. y \<notin> set (acc @ [v])) vals"
    by (induction vals) auto
  show ?case using Cons [of "acc @ [v]"] Cons [of acc] f by simp
qed

lemma dedup_loop_Nil: "dedup_loop vals [] = dedup_first vals"
  by (simp add: dedup_loop_eq)

lemma dedup_loop_append:
  "dedup_loop (xs @ ys) acc = dedup_loop ys (dedup_loop xs acc)"
  by (induction xs arbitrary: acc) auto

lemma set_dedup_loop: "set (dedup_loop xs acc) = set acc \<union> set xs"
  by (induction xs arbitrary: acc) auto

lemma dedup_loop_known: "set ys \<subseteq> set acc \<Longrightarrow> dedup_loop ys acc = acc"
  by (induction ys arbitrary: acc) auto

lemma dedup_loop_twice:
  "dedup_loop ((xs @ ys) @ ys) [] = dedup_loop (xs @ ys) []"
proof -
  have "set ys \<subseteq> set (dedup_loop (xs @ ys) [])"
    by (simp add: set_dedup_loop)
  then have "dedup_loop ys (dedup_loop (xs @ ys) []) = dedup_loop (xs @ ys) []"
    by (rule dedup_loop_known)
  then show ?thesis by (simp only: dedup_loop_append [of "xs @ ys" ys])
qed

lemma dedup_value_merged:
  "dedup_value ((va @ '' '' @ vb) @ '' '' @ vb) =
     join_space (dedup_first (split va @ split vb))"
proof -
  have "split (strip ((va @ '' '' @ vb) @ '' '' @ vb)) = (split va @ split vb) @ split vb"
    by (simp add: split_strip split_append_space)
  then have "dedup_value ((va @ '' '' @ vb) @ '' '' @ vb) =
             join_space (dedup_loop ((split va @ split vb) @ split vb) [])"
    by (simp only: dedup_value_def)
  also have "\<dots> = join_space (dedup_loop (split va @ split vb) [])"
    by (simp only: dedup_loop_twice)
  also have "\<dots> = join_space (dedup_first (split va @ split vb))"
    by (simp only: dedup_loop_Nil)
  finally show ?thesis .
qed

lemma map_of_moditem:
  "map_of (moditem d key f) k =
     (if k = key then map_option f (map_of d k) else map_of d k)"
  by (induction d key f rule: moditem.induct) auto

lemma keys_moditem: "map fst (moditem d key f) = map fst d"
  by (induction d key f rule: moditem.induct) auto

lemma keys_combine_loop1: "map fst (combine_loop1 ks s1 s2) = map fst s1"
  by (induction ks s1 s2 rule: combine_loop1.induct)
     (auto simp: keys_moditem split: option.splits)

lemma keys_combine_loop2: "map fst (combine_loop2 s2 s1) = map fst s1"
  by (induction s2 s1 rule: combine_loop2.induct) (auto simp: keys_moditem)

lemma keys_dedup_all: "map fst (dedup_all ks s) = map fst s"
  by (induction ks s rule: dedup_all.induct) (auto simp: keys_moditem)

lemma map_of_combine_loop1:
  "distinct ks \<Longrightarrow>
   map_of (combine_loop1 ks s1 s2) k =
     (if k \<in> set ks \<and> k \<notin> set unmerged_keys
      then (case map_of s2 k of
              Some v2 \<Rightarrow> map_option (\<lambda>v. v @ '' '' @ v2) (map_of s1 k)
            | None \<Rightarrow> map_of s1 k)
      else map_of s1 k)"
proof (induction ks s1 s2 rule: combine_loop1.induct)
  case (1 source1 source2)
  then show ?case by simp
next
  case (2 key keys source1 source2)
  then show ?case
    by (auto simp: map_of_moditem split: option.splits)
qed

lemma map_of_combine_loop2:
  "distinct (map fst s2) \<Longrightarrow>
   map_of (combine_loop2 s2 s1) k =
     (if k \<notin> set unmerged_keys
      then (case map_of s2 k of
              Some v2 \<Rightarrow> map_option (\<lambda>v. v @ '' '' @ v2) (map_of s1 k)
            | None \<Rightarrow> map_of s1 k)
      else map_of s1 k)"
proof (induction s2 s1 rule: combine_loop2.induct)
  case (1 source1)
  then show ?case by simp
next
  case (2 key v2 rest source1)
  from 2(4) have nk: "map_of rest key = None"
    by (simp add: map_of_eq_None_iff)
  from 2 show ?case
    by (auto simp: map_of_moditem nk split: option.splits)
qed

lemma map_of_dedup_all:
  "distinct ks \<Longrightarrow>
   map_of (dedup_all ks s) k =
     (if k \<in> set ks then map_option dedup_value (map_of s k) else map_of s k)"
proof (induction ks s rule: dedup_all.induct)
  case (1 source)
  then show ?case by simp
next
  case (2 key keys source)
  then show ?case by (auto simp: map_of_moditem)
qed

lemma combine_sources_lookup:
  assumes da: "distinct (map fst a)" and db: "distinct (map fst b)"
    and k: "k \<notin> set unmerged_keys"
    and va: "map_of a k = Some va" and vb: "map_of b k = Some vb"
  shows "map_of (fst (combine_sources a b)) k =
           Some (join_space (dedup_first (split va @ split vb)))"
proof -
  define s1 where "s1 = combine_loop1 (map fst a) a b"
  define s2 where "s2 = combine_loop2 b s1"
  from va have kin: "k \<in> set (map fst a)"
    by (metis key_in_dict_iff option.distinct(1) set_map)
  have m1: "map_of s1 k = Some (va @ '' '' @ vb)"
    unfolding s1_def using map_of_combine_loop1 [OF da, of a b k] k kin va vb by simp
  have m2: "map_of s2 k = Some ((va @ '' '' @ vb) @ '' '' @ vb)"
    unfolding s2_def using map_of_combine_loop2 [OF db, of s1 k] k m1 vb by simp
  have keys: "map fst s2 = map fst a"
    unfolding s2_def s1_def by (simp only: keys_combine_loop2 keys_combine_loop1)
  have "map_of (dedup_all (map fst s2) s2) k =
          Some (dedup_value ((va @ '' '' @ vb) @ '' '' @ vb))"
    using map_of_dedup_all [of "map fst s2" s2 k] da kin m2 unfolding keys by simp
  then have "map_of (dedup_all (map fst s2) s2) k =
          Some (join_space (dedup_first (split va @ split vb)))"
    by (simp only: dedup_value_merged)
  then show ?thesis
    unfolding combine_sources_def s2_def s1_def Let_def by simp
qed

lemma suites_example:
  "map_of (fst (combine_sources [(''Suites'', ''focal focal-updates'')]
                  [(''Suites'', ''focal jammy'')])) ''Suites'' =
     Some ''focal focal-updates jammy''"
  by (simp add: combine_sources_def unmerged_keys_def dedup_value_def strip_def strip_with_def
        rstrip_with_def lstrip_with_def split_def isspace_def)

text \<open>
  Claim C5, as amended. After \<open>combine_sources a b\<close>, a field that both entries have,
  other than \<open>X-Repolib-Name\<close>, \<open>X-Repolib-ID\<close>, \<open>Enabled\<close> and \<open>Types\<close>, holds in
  \<open>a\<close> the tokens of the original value of \<open>a\<close> followed by the tokens of the value
  of \<open>b\<close>, each token kept at its first occurrence only, joined by single spaces. With
  \<open>Suites: focal focal-updates\<close> in \<open>a\<close> and \<open>Suites: focal jammy\<close> in \<open>b\<close>, the
  field of \<open>a\<close> becomes \<open>focal focal-updates jammy\<close>.
\<close>

theorem combine_sources_merges:
  "(distinct (map fst a) \<and> distinct (map fst b) \<and>
    k \<notin> set [''X-Repolib-Name'', ''X-Repolib-ID'', ''Enabled'', ''Types''] \<and>
    map_of a k = Some va \<and> map_of b k = Some vb \<longrightarrow>
      map_of (fst (combine_sources a b)) k =
        Some (join_space (dedup_first (split va @ split vb)))) \<and>
   map_of (fst (combine_sources [(''Suites'', ''focal focal-updates'')]
                  [(''Suites'', ''focal jammy'')])) ''Suites'' =
     Some ''focal focal-updates jammy''"
proof -
  have "set [''X-Repolib-Name'', ''X-Repolib-ID'', ''Enabled'', ''Types''] = set unmerged_keys"
    by (simp only: unmerged_keys_def)
  then show ?thesis
    using combine_sources_lookup [of a b k va vb] suites_example by blast
qed

theorem combine_sources_merges_witness:
  "map_of (fst (combine_sources
       [(''X-Repolib-Name'', ''System''), (''Components'', ''main universe'')]
       [(''Components'', ''universe  main restricted''), (''X-Repolib-Name'', ''Other'')]))
     ''Components'' = Some ''main universe restricted''"
proof -
  have h: "distinct (map fst [(''X-Repolib-Name'', ''System''), (''Components'', ''main universe'')]) \<and>
     distinct (map fst [(''Components'', ''universe  main restricted''), (''X-Repolib-Name'', ''Other'')]) \<and>
     ''Components'' \<notin> set [''X-Repolib-Name'', ''X-Repolib-ID'', ''Enabled'', ''Types''] \<and>
     map_of [(''X-Repolib-Name'', ''System''), (''Components'', ''main universe'')] ''Components'' =
       Some ''main universe'' \<and>
     map_of [(''Components'', ''universe  main restricted''), (''X-Repolib-Name'', ''Other'')]
       ''Components'' = Some ''universe  main restricted''"
    by simp
  have e: "join_space (dedup_first (split ''main universe'' @ split ''universe  main restricted'')) =
           ''main universe restricted''"
    by (simp add: split_def isspace_def)
  note t = conjunct1 [OF combine_sources_merges
         [of "[(''X-Repolib-Name'', ''System''), (''Components'', ''main universe'')]"
             "[(''Components'', ''universe  main restricted''), (''X-Repolib-Name'', ''Other'')]"
             "''Components''" "''main universe''" "''universe  main restricted''"]]
  from t h have "map_of (fst (combine_sources
       [(''X-Repolib-Name'', ''System''), (''Components'', ''main universe'')]
       [(''Components'', ''universe  main restricted''), (''X-Repolib-Name'', ''Other'')]))
     ''Components'' =
     Some (join_space (dedup_first (split ''main universe'' @ split ''universe  main restricted'')))"
    by (rule mp)
  then show ?thesis by (simp only: e)
qed

text \<open>
  Claim C5 as stated fails: \<open>X-Repolib-ID\<close> is not one of the identity fields that the
  claim exempts (\<open>X-Repolib-Name\<close>, \<open>X-Repolib-Ident\<close>, \<open>Enabled\<close>, \<open>Types\<close>), both
  entries have it, and the first entry keeps its own value \<open>a\<close> where the claim gives
  \<open>a b\<close>.
\<close>

theorem combine_sources_id_counterexample:
  "map_of (fst (combine_sources [(''X-Repolib-ID'', ''a'')] [(''X-Repolib-ID'', ''b'')]))
     ''X-Repolib-ID'' = Some ''a'' \<and>
   join_space (dedup_first (split ''a'' @ split ''b'')) = ''a b'' \<and>
   ''X-Repolib-ID'' \<notin> set [''X-Repolib-Name'', ''X-Repolib-Ident'', ''Enabled'', ''Types'']"
  by (simp add: combine_sources_def unmerged_keys_def dedup_value_def strip_def strip_with_def
        rstrip_with_def lstrip_with_def split_def isspace_def)

lemma combine_loop1_unmerged:
  "k \<in> set unmerged_keys \<Longrightarrow> map_of (combine_loop1 ks s1 s2) k = map_of s1 k"
  by (induction ks s1 s2 rule: combine_loop1.induct)
     (auto simp: map_of_moditem split: option.splits)

lemma combine_loop2_unmerged:
  "k \<in> set unmerged_keys \<Longrightarrow> map_of (combine_loop2 s2 s1) k = map_of s1 k"
  by (induction s2 s1 rule: combine_loop2.induct) (auto simp: map_of_moditem)

lemma combine_sources_unmerged_lookup:
  assumes da: "distinct (map fst a)" and k: "k \<in> set unmerged_keys"
  shows "map_of (fst (combine_sources a b)) k = map_option dedup_value (map_of a k)"
proof -
  define s2 where "s2 = combine_loop2 b (combine_loop1 (map fst a) a b)"
  have m2: "map_of s2 k = map_of a k"
    unfolding s2_def by (simp only: combine_loop2_unmerged [OF k] combine_loop1_unmerged [OF k])
  have keys: "map fst s2 = map fst a"
    unfolding s2_def by (simp only: keys_combine_loop2 keys_combine_loop1)
  have "map_of (dedup_all (map fst s2) s2) k = map_option dedup_value (map_of a k)"
  proof (cases "k \<in> set (map fst a)")
    case True
    then show ?thesis
      using map_of_dedup_all [of "map fst s2" s2 k] da m2 unfolding keys by simp
  next
    case False
    then have "map_of a k = None" by (simp add: map_of_eq_None_iff)
    with False show ?thesis
      using map_of_dedup_all [of "map fst s2" s2 k] da m2 unfolding keys by simp
  qed
  then show ?thesis
    unfolding combine_sources_def s2_def Let_def by simp
qed

lemma split_from_token:
  "\<forall>c \<in> set w. \<not> isspace c \<Longrightarrow> split_from (w @ rest) cur = split_from rest (cur @ w)"
  by (induction w arbitrary: cur) auto

lemma split_join_space:
  "\<forall>w \<in> set ws. w \<noteq> [] \<and> (\<forall>c \<in> set w. \<not> isspace c) \<Longrightarrow>
   split_from (join_space ws) [] = ws"
proof (induction ws rule: join_space.induct)
  case 1
  then show ?case by simp
next
  case (2 w)
  then have "split_from (w @ []) [] = split_from [] ([] @ w)"
    by (intro split_from_token) simp
  with 2 show ?case by simp
next
  case (3 w v ws)
  from 3(2) have tok: "\<forall>c \<in> set w. \<not> isspace c" and ne: "w \<noteq> []" by simp_all
  have "split_from (w @ CHR '' '' # join_space (v # ws)) [] =
        split_from (CHR '' '' # join_space (v # ws)) ([] @ w)"
    using tok by (rule split_from_token)
  also have "\<dots> = w # split_from (join_space (v # ws)) []"
    using ne by (simp add: isspace_space)
  also have "\<dots> = w # v # ws" using 3 by simp
  finally show ?case by simp
qed

lemma dedup_first_distinct: "distinct xs \<Longrightarrow> dedup_first xs = xs"
proof (induction xs)
  case Nil
  then show ?case by simp
next
  case (Cons x xs)
  then have "filter (\<lambda>y. y \<noteq> x) xs = xs" by (auto simp: filter_id_conv)
  with Cons show ?case by simp
qed

lemma dedup_value_normal:
  assumes "distinct ws" and "\<forall>w \<in> set ws. w \<noteq> [] \<and> (\<forall>c \<in> set w. \<not> isspace c)"
  shows "dedup_value (join_space ws) = join_space ws"
proof -
  have "split (join_space ws) = ws"
    using split_join_space [OF assms(2)] by (simp add: split_def)
  then have "split (strip (join_space ws)) = ws"
    by (simp only: split_strip)
  then show ?thesis
    by (simp only: dedup_value_def dedup_loop_Nil dedup_first_distinct [OF assms(1)])
qed


lemma dedup_value_spec: "dedup_value v = join_space (dedup_first (split v))"
  by (simp only: dedup_value_def split_strip dedup_loop_Nil)

lemma dedup_value_fun: "dedup_value = (\<lambda>v. join_space (dedup_first (split v)))"
  by (rule ext) (rule dedup_value_spec)

text \<open>
  Claim C6, as amended. The merging loops skip the keys \<open>X-Repolib-Name\<close>,
  \<open>X-Repolib-ID\<close>, \<open>Enabled\<close> and \<open>Types\<close>: whatever \<open>b\<close> holds, such a field of
  \<open>a\<close> holds afterwards the tokens of its own original value, each kept at its first
  occurrence only, joined by single spaces. It is unchanged when the original value is a
  list of distinct tokens separated by single spaces. The fields \<open>Name\<close>, \<open>Ident\<close> and
  \<open>X-Repolib-Ident\<close> are merged with those of \<open>b\<close> like any other field.
\<close>

theorem combine_sources_keeps_unmerged:
  "(distinct (map fst a) \<and>
    k \<in> set [''X-Repolib-Name'', ''X-Repolib-ID'', ''Enabled'', ''Types''] \<longrightarrow>
      map_of (fst (combine_sources a b)) k =
        map_option (\<lambda>v. join_space (dedup_first (split v))) (map_of a k)) \<and>
   (distinct (map fst a) \<and>
    k \<in> set [''X-Repolib-Name'', ''X-Repolib-ID'', ''Enabled'', ''Types''] \<and>
    map_of a k = Some (join_space ws) \<and>
    distinct ws \<and> (\<forall>w \<in> set ws. w \<noteq> [] \<and> (\<forall>c \<in> set w. \<not> isspace c)) \<longrightarrow>
      map_of (fst (combine_sources a b)) k = Some (join_space ws)) \<and>
   (distinct (map fst a) \<and> distinct (map fst b) \<and>
    k \<in> set [''Name'', ''Ident'', ''X-Repolib-Ident''] \<and>
    map_of a k = Some va \<and> map_of b k = Some vb \<longrightarrow>
      map_of (fst (combine_sources a b)) k =
        Some (join_space (dedup_first (split va @ split vb))))"
proof (intro conjI impI)
  assume "distinct (map fst a) \<and>
    k \<in> set [''X-Repolib-Name'', ''X-Repolib-ID'', ''Enabled'', ''Types'']"
  then have "distinct (map fst a)" and "k \<in> set unmerged_keys"
    by (simp_all only: unmerged_keys_def)
  then have "map_of (fst (combine_sources a b)) k = map_option dedup_value (map_of a k)"
    by (rule combine_sources_unmerged_lookup)
  then show "map_of (fst (combine_sources a b)) k =
        map_option (\<lambda>v. join_space (dedup_first (split v))) (map_of a k)"
    by (simp only: dedup_value_fun)
next
  assume h: "distinct (map fst a) \<and>
    k \<in> set [''X-Repolib-Name'', ''X-Repolib-ID'', ''Enabled'', ''Types''] \<and>
    map_of a k = Some (join_space ws) \<and>
    distinct ws \<and> (\<forall>w \<in> set ws. w \<noteq> [] \<and> (\<forall>c \<in> set w. \<not> isspace c))"
  then have "distinct (map fst a)" and "k \<in> set unmerged_keys"
    by (simp_all only: unmerged_keys_def)
  then have "map_of (fst (combine_sources a b)) k = map_option dedup_value (map_of a k)"
    by (rule combine_sources_unmerged_lookup)
  moreover from h have "dedup_value (join_space ws) = join_space ws"
    using dedup_value_normal [of ws] by blast
  moreover from h have "map_of a k = Some (join_space ws)" by blast
  ultimately show "map_of (fst (combine_sources a b)) k = Some (join_space ws)"
    by simp
next
  assume h: "distinct (map fst a) \<and> distinct (map fst b) \<and>
    k \<in> set [''Name'', ''Ident'', ''X-Repolib-Ident''] \<and>
    map_of a k = Some va \<and> map_of b k = Some vb"
  then have "k \<notin> set unmerged_keys"
    by (auto simp: unmerged_keys_def)
  with h show "map_of (fst (combine_sources a b)) k =
        Some (join_space (dedup_first (split va @ split vb)))"
    using combine_sources_lookup [of a b k va vb] by blast
qed

theorem combine_sources_keeps_unmerged_witness:
  "map_of (fst (combine_sources
       [(''Types'', ''deb deb-src deb''), (''Enabled'', ''yes''), (''X-Repolib-Ident'', ''foo'')]
       [(''Types'', ''deb-src''), (''Enabled'', ''no''), (''X-Repolib-Ident'', ''bar'')]))
     ''Types'' = Some ''deb deb-src'' \<and>
   map_of (fst (combine_sources
       [(''Types'', ''deb deb-src deb''), (''Enabled'', ''yes''), (''X-Repolib-Ident'', ''foo'')]
       [(''Types'', ''deb-src''), (''Enabled'', ''no''), (''X-Repolib-Ident'', ''bar'')]))
     ''Enabled'' = Some ''yes'' \<and>
   map_of (fst (combine_sources
       [(''Types'', ''deb deb-src deb''), (''Enabled'', ''yes''), (''X-Repolib-Ident'', ''foo'')]
       [(''Types'', ''deb-src''), (''Enabled'', ''no''), (''X-Repolib-Ident'', ''bar'')]))
     ''X-Repolib-Ident'' = Some ''foo bar''"
proof -
  let ?a = "[(''Types'', ''deb deb-src deb''), (''Enabled'', ''yes''),
             (''X-Repolib-Ident'', ''foo'')]"
  let ?b = "[(''Types'', ''deb-src''), (''Enabled'', ''no''), (''X-Repolib-Ident'', ''bar'')]"
  have h1: "distinct (map fst ?a) \<and>
      ''Types'' \<in> set [''X-Repolib-Name'', ''X-Repolib-ID'', ''Enabled'', ''Types'']"
    by simp
  have e1: "map_option (\<lambda>v. join_space (dedup_first (split v))) (map_of ?a ''Types'') =
            Some ''deb deb-src''"
    by (simp add: split_def isspace_def)
  from conjunct1 [OF combine_sources_keeps_unmerged [of ?a "''Types''" ?b]] h1
  have "map_of (fst (combine_sources ?a ?b)) ''Types'' =
        map_option (\<lambda>v. join_space (dedup_first (split v))) (map_of ?a ''Types'')"
    by (rule mp)
  then have r1: "map_of (fst (combine_sources ?a ?b)) ''Types'' = Some ''deb deb-src''"
    by (simp only: e1)
  have h2: "distinct (map fst ?a) \<and>
      ''Enabled'' \<in> set [''X-Repolib-Name'', ''X-Repolib-ID'', ''Enabled'', ''Types''] \<and>
      map_of ?a ''Enabled'' = Some (join_space [''yes'']) \<and>
      distinct [''yes''] \<and>
      (\<forall>w \<in> set [''yes'']. w \<noteq> [] \<and> (\<forall>c \<in> set w. \<not> isspace c))"
    by (simp add: isspace_def)
  from conjunct1 [OF conjunct2 [OF combine_sources_keeps_unmerged
         [of ?a "''Enabled''" ?b "[''yes'']"]]] h2
  have "map_of (fst (combine_sources ?a ?b)) ''Enabled'' = Some (join_space [''yes''])"
    by (rule mp)
  then have r2: "map_of (fst (combine_sources ?a ?b)) ''Enabled'' = Some ''yes''"
    by (simp only: join_space.simps)
  have h3: "distinct (map fst ?a) \<and> distinct (map fst ?b) \<and>
      ''X-Repolib-Ident'' \<in> set [''Name'', ''Ident'', ''X-Repolib-Ident''] \<and>
      map_of ?a ''X-Repolib-Ident'' = Some ''foo'' \<and>
      map_of ?b ''X-Repolib-Ident'' = Some ''bar''"
    by simp
  have e3: "join_space (dedup_first (split ''foo'' @ split ''bar'')) = ''foo bar''"
    by (simp add: split_def isspace_def)
  from conjunct2 [OF conjunct2 [OF combine_sources_keeps_unmerged
         [of ?a "''X-Repolib-Ident''" ?b _ "''foo''" "''bar''"]]] h3
  have "map_of (fst (combine_sources ?a ?b)) ''X-Repolib-Ident'' =
        Some (join_space (dedup_first (split ''foo'' @ split ''bar'')))"
    by (rule mp)
  then have r3: "map_of (fst (combine_sources ?a ?b)) ''X-Repolib-Ident'' = Some ''foo bar''"
    by (simp only: e3)
  from r1 r2 r3 show ?thesis by blast
qed

text \<open>
  Claim C6 as stated fails: the fields \<open>X-Repolib-Ident\<close>, \<open>Name\<close> and \<open>Ident\<close> of
  the first entry are merged with those of the second entry, and a repeated token of
  \<open>X-Repolib-Name\<close> is removed.
\<close>

theorem combine_sources_identity_counterexample:
  "map_of (fst (combine_sources [(''X-Repolib-Ident'', ''foo'')]
                  [(''X-Repolib-Ident'', ''bar'')])) ''X-Repolib-Ident'' = Some ''foo bar'' \<and>
   map_of (fst (combine_sources [(''Name'', ''System'')] [(''Name'', ''Other'')]))
     ''Name'' = Some ''System Other'' \<and>
   map_of (fst (combine_sources [(''Ident'', ''system'')] [(''Ident'', ''other'')]))
     ''Ident'' = Some ''system other'' \<and>
   map_of (fst (combine_sources [(''X-Repolib-Name'', ''Pop Pop'')] []))
     ''X-Repolib-Name'' = Some ''Pop''"
  by (simp add: combine_sources_def unmerged_keys_def dedup_value_def strip_def strip_with_def
        rstrip_with_def lstrip_with_def split_def isspace_def)

section \<open>Properties of the validators\<close>

lemmas parse_defs = urlparse_def urlsplit_def split_scheme_def splitnetloc_def split_once_def
  splitparams_def uses_params_def scheme_chars_def c0_control_or_space_def unsafe_url_byte_def
  isascii_def ascii_alpha_def lower_char_def

lemma urlparse_https_repo: "urlparse bok nok ''https://example.com/repo'' =
  Some \<lparr>scheme = ''https'', netloc = ''example.com'', path = ''/repo'', params = [],
        query = [], fragment = []\<rparr>"
  by (simp add: parse_defs)

lemma urlparse_file_repo: "urlparse bok nok ''file:///srv/repo'' =
  Some \<lparr>scheme = ''file'', netloc = [], path = ''/srv/repo'', params = [],
        query = [], fragment = []\<rparr>"
  by (simp add: parse_defs)

lemma urlparse_not_a_url: "urlparse bok nok ''not-a-url'' =
  Some \<lparr>scheme = [], netloc = [], path = ''not-a-url'', params = [],
        query = [], fragment = []\<rparr>"
  by (simp add: parse_defs)

lemma urlparse_empty: "urlparse bok nok [] =
  Some \<lparr>scheme = [], netloc = [], path = [], params = [],
        query = [], fragment = []\<rparr>"
  by (simp add: parse_defs)


lemma urlparse_https_ubuntu: "urlparse bok nok ''https://example.com/ubuntu'' =
  Some \<lparr>scheme = ''https'', netloc = ''example.com'', path = ''/ubuntu'', params = [],
        query = [], fragment = []\<rparr>"
  by (simp add: parse_defs)

lemma urlparse_word_deb: "urlparse bok nok ''deb'' =
  Some \<lparr>scheme = [], netloc = [], path = ''deb'', params = [],
        query = [], fragment = []\<rparr>"
  by (simp add: parse_defs)

lemma urlparse_word_onlytext: "urlparse bok nok ''onlytext'' =
  Some \<lparr>scheme = [], netloc = [], path = ''onlytext'', params = [],
        query = [], fragment = []\<rparr>"
  by (simp add: parse_defs)

lemma url_validator_cases:
  "url_validator parse url =
     (case parse url of
        None \<Rightarrow> False
      | Some r \<Rightarrow> scheme r \<noteq> [] \<and> scheme r \<noteq> ''x-repolib-name'' \<and>
                  (netloc r \<noteq> [] \<or> path r \<noteq> []))"
  by (auto simp: url_validator_def split: option.splits)

lemma deb_words_iff:
  "deb_words parse ws = (if list_ex (url_validator parse) ws then Some True else None)"
  by (induction ws) auto

lemma split_deb_example:
  "split ''deb https://example.com/ubuntu focal main'' =
     [''deb'', ''https://example.com/ubuntu'', ''focal'', ''main'']"
  by (simp add: split_def isspace_def)

lemma strip_comment_example:
  "strip_comment ''# deb https://example.com/ubuntu focal main'' =
     ''deb https://example.com/ubuntu focal main''"
  by (simp add: strip_comment_def startswith_def strip_def strip_with_def rstrip_with_def
        lstrip_with_def isspace_def)

lemma strip_comment_plain:
  "strip_comment ''deb https://example.com/ubuntu focal main'' =
     ''deb https://example.com/ubuntu focal main''"
  by (simp add: strip_comment_def startswith_def)

lemma debline_ex1:
  "validate_debline (urlparse bok nok) ''deb https://example.com/ubuntu focal main'' = Some True"
  by (simp add: validate_debline_def strip_comment_plain split_deb_example startswith_def
        url_validator_cases urlparse_https_ubuntu urlparse_word_deb)

lemma debline_ex2:
  "validate_debline (urlparse bok nok) ''# deb https://example.com/ubuntu focal main'' =
     Some True"
  by (simp add: validate_debline_def strip_comment_example split_deb_example startswith_def
        url_validator_cases urlparse_https_ubuntu urlparse_word_deb)

lemma debline_ex3:
  "validate_debline (urlparse bok nok) ''deb onlytext'' = None"
  by (simp add: validate_debline_def strip_comment_def split_def isspace_def startswith_def
        url_validator_cases urlparse_word_deb urlparse_word_onlytext)

lemma debline_ex4:
  "validate_debline (urlparse bok nok) ''something.flatpakrepo'' = Some False"
  by (simp add: validate_debline_def strip_comment_def startswith_def endswith_def)

text \<open>
  Claim C8. \<open>url_validator\<close> is a total function into the booleans: an exception of the
  parser is the result \<open>False\<close>. It is false when the scheme is empty or is
  \<open>x-repolib-name\<close>; otherwise it is true when the netloc is non-empty, and also when
  the netloc is empty and the path is not; it is false in every other case. With the
  parser of the library, \<open>https://example.com/repo\<close> and \<open>file:///srv/repo\<close> are valid,
  \<open>not-a-url\<close> and the empty string are not.
\<close>

theorem url_validator_spec:
  "url_validator parse url =
     (case parse url of
        None \<Rightarrow> False
      | Some r \<Rightarrow> scheme r \<noteq> [] \<and> scheme r \<noteq> ''x-repolib-name'' \<and>
                  (netloc r \<noteq> [] \<or> path r \<noteq> [])) \<and>
   url_validator (urlparse bok nok) ''https://example.com/repo'' \<and>
   url_validator (urlparse bok nok) ''file:///srv/repo'' \<and>
   \<not> url_validator (urlparse bok nok) ''not-a-url'' \<and>
   \<not> url_validator (urlparse bok nok) []"
proof -
  have "url_validator (urlparse bok nok) ''https://example.com/repo''"
    by (simp add: url_validator_cases urlparse_https_repo)
  moreover have "url_validator (urlparse bok nok) ''file:///srv/repo''"
    by (simp add: url_validator_cases urlparse_file_repo)
  moreover have "\<not> url_validator (urlparse bok nok) ''not-a-url''"
    by (simp add: url_validator_cases urlparse_not_a_url)
  moreover have "\<not> url_validator (urlparse bok nok) []"
    by (simp add: url_validator_cases urlparse_empty)
  ultimately show ?thesis using url_validator_cases [of parse url] by blast
qed

theorem url_validator_spec_witness:
  "url_validator (urlparse accept_netloc accept_netloc) ''https://example.com/repo'' \<and>
   \<not> url_validator (urlparse accept_netloc accept_netloc) ''not-a-url''"
  using url_validator_spec [of "urlparse accept_netloc accept_netloc"
          "''https://example.com/repo''" accept_netloc accept_netloc]
  by blast

lemma validate_debline_cases:
  "validate_debline parse line =
     (if startswith ''deb'' (strip_comment line)
      then (if list_ex (url_validator parse) (split (strip_comment line))
            then Some True else None)
      else if startswith ''ppa:'' (strip_comment line)
        then (if CHR ''/'' \<in> set (strip_comment line) then Some True else None)
      else if endswith ''.flatpakrepo'' (strip_comment line) then Some False
      else if length (split (strip_comment line)) = 1
        then Some (url_validator parse (strip_comment line))
      else Some False)"
  by (simp only: validate_debline_def Let_def deb_words_iff)

text \<open>
  Claim C7, on the inputs where it fails. For \<open>deb onlytext\<close>, a \<open>deb\<close> line none of
  whose words is a URL, and for \<open>ppa:nobody\<close>, a \<open>ppa:\<close> line without a slash, the
  function ends without a \<^verbatim>\<open>return\<close>: the result is Python's \<^verbatim>\<open>None\<close>, not the
  boolean \<open>False\<close> that the last branch returns for its invalid lines. The valid lines
  of the claim give \<open>True\<close>, also behind one or two \<open>#\<close>, and
  \<open>something.flatpakrepo\<close> gives \<open>False\<close>.
\<close>

theorem validate_debline_no_return:
  "validate_debline (urlparse bok nok) ''deb onlytext'' = None \<and>
   validate_debline (urlparse bok nok) ''deb onlytext'' \<noteq> Some False \<and>
   validate_debline (urlparse bok nok) ''ppa:nobody'' = None \<and>
   validate_debline (urlparse bok nok) ''deb https://example.com/ubuntu focal main'' =
     Some True \<and>
   validate_debline (urlparse bok nok) ''# deb https://example.com/ubuntu focal main'' =
     Some True \<and>
   validate_debline (urlparse bok nok) ''## deb https://example.com/ubuntu focal main'' =
     Some True \<and>
   validate_debline (urlparse bok nok) ''something.flatpakrepo'' = Some False"
proof -
  have "validate_debline (urlparse bok nok) ''ppa:nobody'' = None"
    by (simp add: validate_debline_def strip_comment_def startswith_def)
  moreover have "strip_comment ''## deb https://example.com/ubuntu focal main'' =
                 ''deb https://example.com/ubuntu focal main''"
    by (simp add: strip_comment_def startswith_def strip_def strip_with_def rstrip_with_def
          lstrip_with_def isspace_def)
  then have "validate_debline (urlparse bok nok)
               ''## deb https://example.com/ubuntu focal main'' = Some True"
    by (simp add: validate_debline_def split_deb_example startswith_def
          url_validator_cases urlparse_https_ubuntu urlparse_word_deb)
  ultimately show ?thesis
    using debline_ex1 [of bok nok] debline_ex2 [of bok nok] debline_ex3 [of bok nok]
      debline_ex4 [of bok nok]
    by simp
qed

text \<open>
  Claim C9, on the input where it fails. When the request for the key fails with
  \<open>URLError\<close>, the exception is caught and the response is \<open>None\<close>; the call of
  \<open>read\<close> on it then raises \<open>AttributeError\<close>, which reaches the caller.
\<close>

theorem fetch_key_url_error:
  "fetch_key (urlopen((query_url @ fingerprint) := Inl URLError)) fingerprint query_url =
     Inl AttributeError"
  by (simp add: fetch_key_def)

section \<open>Properties of strip\_hashes\<close>









end
